theory Spec2Isabelle
  imports Main "HOL-Library.Word" "HOL-Library.Sublist"
begin

section \<open>Strings of the host language\<close>

text \<open>
  A JavaScript string is a sequence of UTF-16 code units. Offsets, \<^verbatim>\<open>length\<close>,
  \<^verbatim>\<open>substring\<close> and \<^verbatim>\<open>split\<close> all count code units, so a string is a list of
  16-bit words. \<open>js\<close> embeds an ASCII literal.
\<close>

type_synonym jschar = "16 word"
type_synonym jsstring = "jschar list"

definition js :: "string \<Rightarrow> jsstring" where
  "js s = map of_char s"

text \<open>Decimal rendering of a non-negative integer, as a template literal
  \<^verbatim>\<open>`${n}`\<close> gives it for an array length or index.\<close>

definition digit_char :: "nat \<Rightarrow> jschar" where
  "digit_char d = of_nat (48 + d)"

fun show_nat :: "nat \<Rightarrow> jsstring" where
  "show_nat n = (if n < 10 then [digit_char n] else show_nat (n div 10) @ [digit_char (n mod 10)])"

declare show_nat.simps [simp del]

section \<open>Parsed values\<close>

text \<open>
  The value domain of \<^verbatim>\<open>JSON.parse\<close>. An object is the list of its own properties in
  creation order (keys pairwise distinct). A number is held as the text that
  \<^verbatim>\<open>Number.prototype.toString\<close> gives for it: the program observes a number only through
  \<^verbatim>\<open>typeof\<close>, its truthiness, and its serialization.
\<close>

datatype json =
    JNull
  | JBool bool
  | JNum jsstring
  | JStr jsstring
  | JArr "json list"
  | JObj "(jsstring \<times> json) list"

section \<open>Property order of an object\<close>

text \<open>
  \<^verbatim>\<open>Object.keys\<close> lists the own properties of an ordinary object in the order of
  OrdinaryOwnPropertyKeys: first the keys that are array indices (canonical decimal
  numerals up to \<open>2^32 - 2\<close>) in ascending numeric order, then the other string keys
  in creation order.
\<close>

definition is_digit :: "jschar \<Rightarrow> bool" where
  "is_digit c = (0x30 \<le> c \<and> c \<le> 0x39)"

definition decimal_value :: "jsstring \<Rightarrow> nat" where
  "decimal_value s = foldl (\<lambda>n c. 10 * n + (unat c - 48)) 0 s"

definition is_array_index :: "jsstring \<Rightarrow> bool" where
  "is_array_index s =
     (case s of
        [] \<Rightarrow> False
      | c # cs \<Rightarrow> list_all is_digit s \<and> (if c = 0x30 then cs = [] else True)
                 \<and> decimal_value s < 4294967295)"

definition Object_keys :: "(jsstring \<times> json) list \<Rightarrow> jsstring list" where
  "Object_keys props =
     (let ks = map fst props
      in sort_key decimal_value (filter is_array_index ks) @ filter (\<lambda>k. \<not> is_array_index k) ks)"

text \<open>The pairs \<open>(k, obj[k])\<close> for \<open>k\<close> in \<^verbatim>\<open>Object.keys(obj)\<close>.\<close>

definition own_entries :: "(jsstring \<times> json) list \<Rightarrow> (jsstring \<times> json) list" where
  "own_entries props =
     List.map_filter (\<lambda>k. map_option (Pair k) (map_of props k)) (Object_keys props)"

section \<open>Serialization and byte size\<close>

text \<open>
  \<^verbatim>\<open>JSON.stringify(v)\<close> with no indent argument, on the values \<^verbatim>\<open>JSON.parse\<close>
  produces. Strings are quoted as QuoteJSONString does: the short escapes, \<^verbatim>\<open>\uXXXX\<close>
  for the other control characters and for unpaired surrogates, everything else as it is.
\<close>

definition hex_digit :: "nat \<Rightarrow> jschar" where
  "hex_digit d = (if d < 10 then of_nat (48 + d) else of_nat (87 + d))"

definition unicode_escape :: "jschar \<Rightarrow> jsstring" where
  "unicode_escape c =
     (let n = unat c
      in [0x5C, 0x75, hex_digit (n div 4096), hex_digit (n div 256 mod 16),
          hex_digit (n div 16 mod 16), hex_digit (n mod 16)])"

definition is_lead_surrogate :: "jschar \<Rightarrow> bool" where
  "is_lead_surrogate c = (0xD800 \<le> c \<and> c \<le> 0xDBFF)"

definition is_trail_surrogate :: "jschar \<Rightarrow> bool" where
  "is_trail_surrogate c = (0xDC00 \<le> c \<and> c \<le> 0xDFFF)"

fun quote_chars :: "jsstring \<Rightarrow> jsstring" where
  "quote_chars [] = []"
| "quote_chars (c # cs) =
     (if c = 0x08 then [0x5C, 0x62] @ quote_chars cs
      else if c = 0x09 then [0x5C, 0x74] @ quote_chars cs
      else if c = 0x0A then [0x5C, 0x6E] @ quote_chars cs
      else if c = 0x0C then [0x5C, 0x66] @ quote_chars cs
      else if c = 0x0D then [0x5C, 0x72] @ quote_chars cs
      else if c = 0x22 then [0x5C, 0x22] @ quote_chars cs
      else if c = 0x5C then [0x5C, 0x5C] @ quote_chars cs
      else if c < 0x20 then unicode_escape c @ quote_chars cs
      else if is_lead_surrogate c then
        (case cs of
           [] \<Rightarrow> unicode_escape c
         | d # ds \<Rightarrow>
             if is_trail_surrogate d then c # d # quote_chars ds
             else unicode_escape c @ quote_chars cs)
      else if is_trail_surrogate c then unicode_escape c @ quote_chars cs
      else c # quote_chars cs)"

definition QuoteJSONString :: "jsstring \<Rightarrow> jsstring" where
  "QuoteJSONString s = [0x22] @ quote_chars s @ [0x22]"

fun join :: "jsstring \<Rightarrow> jsstring list \<Rightarrow> jsstring" where
  "join sep [] = []"
| "join sep [x] = x"
| "join sep (x # y # ys) = x @ sep @ join sep (y # ys)"

function JSON_stringify :: "json \<Rightarrow> jsstring" where
  "JSON_stringify JNull = js ''null''"
| "JSON_stringify (JBool b) = (if b then js ''true'' else js ''false'')"
| "JSON_stringify (JNum t) =
     (if t = js ''Infinity'' \<or> t = js ''-Infinity'' \<or> t = js ''NaN'' then js ''null'' else t)"
| "JSON_stringify (JStr s) = QuoteJSONString s"
| "JSON_stringify (JArr xs) = js ''['' @ join (js '','') (map JSON_stringify xs) @ js '']''"
| "JSON_stringify (JObj props) =
     js ''{''
     @ join (js '','')
         (map (\<lambda>(k, v). QuoteJSONString k @ js '':'' @ JSON_stringify v) (own_entries props))
     @ js ''}''"
  by pat_completeness auto

lemma own_entries_subset: "(k, v) \<in> set (own_entries props) \<Longrightarrow> (k, v) \<in> set props"
  by (auto simp: own_entries_def List.map_filter_def dest: map_of_SomeD)

lemma size_own_entry:
  assumes "(k, v) \<in> set (own_entries props)"
  shows "size v < Suc (size_list (size_prod (\<lambda>_. 0) size) props)"
proof -
  from assms have "(k, v) \<in> set props"
    by (rule own_entries_subset)
  then have "size_prod (\<lambda>_. 0) size (k, v) \<le> size_list (size_prod (\<lambda>_. 0) size) props"
    by (rule size_list_estimation') simp
  then show ?thesis
    by simp
qed

termination JSON_stringify
  apply (relation "measure size")
    apply simp
   apply (simp add: less_Suc_eq_le size_list_estimation')
  apply (auto dest: size_own_entry)
  done

text \<open>
  \<^verbatim>\<open>new Blob([s]).size\<close>: the number of bytes of the UTF-8 encoding of \<open>s\<close>. A surrogate
  pair encodes one code point in four bytes; an unpaired surrogate is replaced by
  U+FFFD.
\<close>

definition replacement_bytes :: "8 word list" where
  "replacement_bytes = [0xEF, 0xBF, 0xBD]"

fun utf8_encode :: "jsstring \<Rightarrow> 8 word list" where
  "utf8_encode [] = []"
| "utf8_encode (c # cs) =
     (let n = unat c in
      if n < 128 then of_nat n # utf8_encode cs
      else if n < 2048 then [of_nat (192 + n div 64), of_nat (128 + n mod 64)] @ utf8_encode cs
      else if is_lead_surrogate c then
        (case cs of
           [] \<Rightarrow> replacement_bytes
         | d # ds \<Rightarrow>
             if is_trail_surrogate d then
               (let p = 65536 + (n - 55296) * 1024 + (unat d - 56320)
                in [of_nat (240 + p div 262144), of_nat (128 + p div 4096 mod 64),
                    of_nat (128 + p div 64 mod 64), of_nat (128 + p mod 64)] @ utf8_encode ds)
             else replacement_bytes @ utf8_encode cs)
      else if is_trail_surrogate c then replacement_bytes @ utf8_encode cs
      else [of_nat (224 + n div 4096), of_nat (128 + n div 64 mod 64), of_nat (128 + n mod 64)]
           @ utf8_encode cs)"

definition Blob_size :: "jsstring \<Rightarrow> nat" where
  "Blob_size s = length (utf8_encode s)"

section \<open>The component's functions\<close>

text \<open>
  \<^verbatim>\<open>interface JsonNode\<close>. The fields carry the prefix \<open>node_\<close>; the optional field
  \<^verbatim>\<open>expanded\<close> is an option.
\<close>

record JsonNode =
  node_key :: jsstring
  node_value :: json
  node_type :: jsstring
  node_size :: nat
  node_path :: jsstring
  node_expanded :: "bool option"

definition calculateSize :: "json \<Rightarrow> nat" where
  "calculateSize obj = Blob_size (JSON_stringify obj)"

definition Array_isArray :: "json \<Rightarrow> bool" where
  "Array_isArray v = (case v of JArr _ \<Rightarrow> True | _ \<Rightarrow> False)"

fun typeof :: "json \<Rightarrow> jsstring" where
  "typeof JNull = js ''object''"
| "typeof (JBool _) = js ''boolean''"
| "typeof (JNum _) = js ''number''"
| "typeof (JStr _) = js ''string''"
| "typeof (JArr _) = js ''object''"
| "typeof (JObj _) = js ''object''"

fun elements :: "json \<Rightarrow> json list" where
  "elements (JArr xs) = xs"
| "elements _ = []"

fun properties :: "json \<Rightarrow> (jsstring \<times> json) list" where
  "properties (JObj props) = props"
| "properties _ = []"

text \<open>
  \<^verbatim>\<open>buildJsonTree(obj, key = 'root', path = '')\<close>, with the \<^verbatim>\<open>expandedNodes\<close> it closes
  over as its first argument. Each \<^verbatim>\<open>forEach\<close> pushes the nodes of one child's call
  onto \<^verbatim>\<open>nodes\<close>.
\<close>

function buildJsonTree :: "jsstring set \<Rightarrow> json \<Rightarrow> jsstring \<Rightarrow> jsstring \<Rightarrow> JsonNode list" where
  "buildJsonTree expandedNodes obj key path =
     (let currentPath = (if path \<noteq> [] then path @ js ''.'' @ key else key) in
      if obj = JNull then
        [\<lparr>node_key = key, node_value = JNull, node_type = js ''null'',
          node_size = calculateSize JNull, node_path = currentPath, node_expanded = None\<rparr>]
      else if Array_isArray obj then
        (let nodes =
           [\<lparr>node_key = (if key = js ''root'' then js ''root''
                          else key @ js '' ['' @ show_nat (length (elements obj)) @ js '']''),
             node_value = obj, node_type = js ''array'', node_size = calculateSize obj,
             node_path = currentPath, node_expanded = Some (currentPath \<in> expandedNodes)\<rparr>]
         in if currentPath \<in> expandedNodes then
              foldl (\<lambda>nodes (index, item).
                       nodes @ buildJsonTree expandedNodes item
                                 (js ''['' @ show_nat index @ js '']'') currentPath)
                nodes (enumerate 0 (elements obj))
            else nodes)
      else if typeof obj = js ''object'' then
        (let keys = Object_keys (properties obj);
             nodes =
           [\<lparr>node_key = (if key = js ''root'' then js ''root''
                          else key @ js '' {'' @ show_nat (length keys) @ js ''}''),
             node_value = obj, node_type = js ''object'', node_size = calculateSize obj,
             node_path = currentPath, node_expanded = Some (currentPath \<in> expandedNodes)\<rparr>]
         in if currentPath \<in> expandedNodes then
              foldl (\<lambda>nodes (objKey, v).
                       nodes @ buildJsonTree expandedNodes v objKey currentPath)
                nodes (own_entries (properties obj))
            else nodes)
      else
        [\<lparr>node_key = key, node_value = obj, node_type = typeof obj,
          node_size = calculateSize obj, node_path = currentPath, node_expanded = None\<rparr>])"
  by pat_completeness auto

lemma size_element: "x \<in> set xs \<Longrightarrow> size x < Suc (size_list size xs)"
  by (simp add: less_Suc_eq_le size_list_estimation')

termination buildJsonTree
proof (relation "measure (\<lambda>(E, obj, key, path). size obj)", goal_cases)
  case 1
  show ?case by simp
next
  case (2 E obj key path cp nodes x xa y)
  then show ?case
    by (cases obj) (auto simp: Array_isArray_def in_set_enumerate_eq size_element)
next
  case (3 E obj key path cp keys nodes x xa y)
  then show ?case
    by (cases obj) (auto simp: js_def dest: size_own_entry)
qed

declare buildJsonTree.simps [simp del]

text \<open>ToBoolean, which \<^verbatim>\<open>!parsedJson\<close> and \<^verbatim>\<open>parsedJson && ...\<close> apply to the parsed
  value: \<^verbatim>\<open>null\<close>, \<^verbatim>\<open>false\<close>, zero, \<^verbatim>\<open>NaN\<close> and the empty string are falsy.\<close>

definition truthy :: "json \<Rightarrow> bool" where
  "truthy v =
     (case v of
        JNull \<Rightarrow> False
      | JBool b \<Rightarrow> b
      | JNum t \<Rightarrow> t \<noteq> js ''0'' \<and> t \<noteq> js ''NaN''
      | JStr s \<Rightarrow> s \<noteq> []
      | JArr _ \<Rightarrow> True
      | JObj _ \<Rightarrow> True)"

text \<open>The memo \<^verbatim>\<open>jsonTree\<close>.\<close>

definition jsonTree :: "jsstring set \<Rightarrow> json \<Rightarrow> JsonNode list" where
  "jsonTree E parsed = (if \<not> truthy parsed then [] else buildJsonTree E parsed (js ''root'') [])"

text \<open>The updater that \<^verbatim>\<open>toggleNode(path)\<close> hands to \<^verbatim>\<open>setExpandedNodes\<close>.\<close>

definition toggleNode :: "jsstring \<Rightarrow> jsstring set \<Rightarrow> jsstring set" where
  "toggleNode path prev =
     (let newSet = prev
      in if path \<in> newSet then newSet - {path} else insert path newSet)"

text \<open>The figures of the header, shown only under \<^verbatim>\<open>parsedJson && ...\<close>: the size (the
  number handed to \<^verbatim>\<open>formatBytes\<close>) and the item count. The line count is not
  modelled.\<close>

definition headerSize :: "json \<Rightarrow> nat option" where
  "headerSize parsed = (if truthy parsed then Some (Blob_size (JSON_stringify parsed)) else None)"

definition itemCount :: "json \<Rightarrow> nat" where
  "itemCount parsed =
     (if typeof parsed = js ''object'' \<and> parsed \<noteq> JNull
      then (if Array_isArray parsed then length (elements parsed)
            else length (Object_keys (properties parsed)))
      else 1)"

definition headerItems :: "json \<Rightarrow> nat option" where
  "headerItems parsed = (if truthy parsed then Some (itemCount parsed) else None)"

section \<open>Parsing and error location\<close>

text \<open>\<^verbatim>\<open>String.prototype.trim\<close> strips WhiteSpace and LineTerminator code units from both
  ends.\<close>

definition is_whitespace :: "jschar \<Rightarrow> bool" where
  "is_whitespace c =
     (c \<in> {0x09, 0x0A, 0x0B, 0x0C, 0x0D, 0x20, 0xA0, 0x1680, 0x2028, 0x2029, 0x202F, 0x205F,
            0x3000, 0xFEFF}
      \<or> (0x2000 \<le> c \<and> c \<le> 0x200A))"

definition trim :: "jsstring \<Rightarrow> jsstring" where
  "trim s = rev (dropWhile is_whitespace (rev (dropWhile is_whitespace s)))"

text \<open>\<^verbatim>\<open>s.match(/position (\d+)/)\<close>: the digits of the leftmost match, if there is one.
  \<^verbatim>\<open>parseInt\<close> of these digits is their decimal value, \<open>decimal_value\<close> (exact below
  \<open>2^53\<close>, as every offset into a string is).\<close>

fun match_position :: "jsstring \<Rightarrow> jsstring option" where
  "match_position [] = None"
| "match_position (c # cs) =
     (let digits = takeWhile is_digit (drop (length (js ''position '')) (c # cs))
      in if prefix (js ''position '') (c # cs) \<and> digits \<noteq> [] then Some digits
         else match_position cs)"

text \<open>\<^verbatim>\<open>s.split(sep)\<close> for a one-character separator: never an empty array.\<close>

fun split :: "jschar \<Rightarrow> jsstring \<Rightarrow> jsstring list" where
  "split sep [] = [[]]"
| "split sep (c # cs) =
     (if c = sep then [] # split sep cs
      else (case split sep cs of [] \<Rightarrow> [[c]] | l # ls \<Rightarrow> (c # l) # ls))"

text \<open>\<^verbatim>\<open>xs[i]\<close>: \<^verbatim>\<open>undefined\<close> outside the array.\<close>

definition at_index :: "'a list \<Rightarrow> int \<Rightarrow> 'a option" where
  "at_index xs i = (if 0 \<le> i \<and> i < int (length xs) then Some (xs ! nat i) else None)"

definition newline :: jschar where
  "newline = 0x0A"

record JsonError =
  message :: jsstring
  line :: nat
  column :: nat
  position :: nat

datatype js_exception = TypeError

text \<open>The component's state: the four \<^verbatim>\<open>useState\<close> cells. \<^verbatim>\<open>null\<close> in
  \<^verbatim>\<open>parsedJson\<close> is \<open>JNull\<close>, in \<^verbatim>\<open>jsonError\<close> it is \<open>None\<close>.\<close>

record app_state =
  jsonInput :: jsstring
  parsedJson :: json
  jsonError :: "JsonError option"
  expandedNodes :: "jsstring set"

text \<open>
  \<^verbatim>\<open>parseJsonWithError(input)\<close>. \<^verbatim>\<open>JSON.parse\<close> is the engine's: it is the parameter
  \<open>JSON_parse\<close>, which returns the value or the message of the SyntaxError it throws.
  Reading a property of \<^verbatim>\<open>undefined\<close> throws a TypeError.
\<close>

definition parseJsonWithError ::
  "(jsstring \<Rightarrow> jsstring + json) \<Rightarrow> jsstring \<Rightarrow> app_state \<Rightarrow> js_exception + app_state" where
  "parseJsonWithError JSON_parse input st =
     (if trim input = [] then Inr (st\<lparr>parsedJson := JNull, jsonError := None\<rparr>)
      else
        (case JSON_parse input of
           Inr parsed \<Rightarrow> Inr (st\<lparr>parsedJson := parsed, jsonError := None\<rparr>)
         | Inl error_message \<Rightarrow>
             (let match = match_position error_message;
                  position = (case match of Some digits \<Rightarrow> decimal_value digits | None \<Rightarrow> 0);
                  lines = split newline (take position input);
                  line = length lines
              in case at_index lines (int (length lines) - 1) of
                   None \<Rightarrow> Inl TypeError
                 | Some last_line \<Rightarrow>
                     Inr (st\<lparr>parsedJson := JNull,
                             jsonError := Some \<lparr>message = error_message, line = line,
                                                column = length last_line + 1,
                                                position = position\<rparr>\<rparr>))))"

section \<open>Effects and events\<close>

text \<open>The effect on \<^verbatim>\<open>[parsedJson, expandedNodes.size]\<close>.\<close>

definition expandRootEffect :: "app_state \<Rightarrow> app_state" where
  "expandRootEffect st =
     (if truthy (parsedJson st) \<and> expandedNodes st = {}
      then st\<lparr>expandedNodes := {js ''root''}\<rparr> else st)"

text \<open>
  A change of the input text runs the parse effect and then the effect above; a click on
  a row calls \<^verbatim>\<open>toggleNode\<close> when the row can expand, and the effect follows.
\<close>

definition on_input ::
  "(jsstring \<Rightarrow> jsstring + json) \<Rightarrow> jsstring \<Rightarrow> app_state \<Rightarrow> js_exception + app_state" where
  "on_input JSON_parse input st =
     (case parseJsonWithError JSON_parse input (st\<lparr>jsonInput := input\<rparr>) of
        Inl e \<Rightarrow> Inl e
      | Inr st' \<Rightarrow> Inr (expandRootEffect st'))"

definition canExpand :: "JsonNode \<Rightarrow> bool" where
  "canExpand node =
     ((node_type node = js ''object'' \<or> node_type node = js ''array'')
      \<and> node_expanded node \<noteq> None)"

definition on_click :: "JsonNode \<Rightarrow> app_state \<Rightarrow> app_state" where
  "on_click node st =
     (if canExpand node
      then expandRootEffect (st\<lparr>expandedNodes := toggleNode (node_path node) (expandedNodes st)\<rparr>)
      else st)"

definition initial_state :: app_state where
  "initial_state = \<lparr>jsonInput = [], parsedJson = JNull, jsonError = None, expandedNodes = {}\<rparr>"

inductive reachable :: "(jsstring \<Rightarrow> jsstring + json) \<Rightarrow> app_state \<Rightarrow> bool"
  for JSON_parse :: "jsstring \<Rightarrow> jsstring + json" where
  start: "reachable JSON_parse initial_state"
| edit: "reachable JSON_parse st \<Longrightarrow> on_input JSON_parse input st = Inr st'
         \<Longrightarrow> reachable JSON_parse st'"
| click: "reachable JSON_parse st \<Longrightarrow> node \<in> set (jsonTree (expandedNodes st) (parsedJson st))
          \<Longrightarrow> reachable JSON_parse (on_click node st)"

section \<open>Vocabulary of the specification\<close>

text \<open>
  Names for what the specification talks about. \<open>currentPath\<close> is the path of the
  value under construction; \<open>children\<close> are the keys and values a container is
  traversed by: the elements of an array with the keys \<^verbatim>\<open>[0]\<close>, \<^verbatim>\<open>[1]\<close>, ..., and the
  properties of an object in the order of \<^verbatim>\<open>Object.keys\<close>. \<open>insertion_children\<close>
  follows the specification's words: the properties of an object in insertion order.
\<close>

definition currentPath :: "jsstring \<Rightarrow> jsstring \<Rightarrow> jsstring" where
  "currentPath key path = (if path \<noteq> [] then path @ js ''.'' @ key else key)"

definition is_container :: "json \<Rightarrow> bool" where
  "is_container v = (case v of JArr _ \<Rightarrow> True | JObj _ \<Rightarrow> True | _ \<Rightarrow> False)"

definition index_entries :: "json list \<Rightarrow> (jsstring \<times> json) list" where
  "index_entries xs =
     map (\<lambda>(index, item). (js ''['' @ show_nat index @ js '']'', item)) (enumerate 0 xs)"

definition children :: "json \<Rightarrow> (jsstring \<times> json) list" where
  "children v =
     (case v of JArr xs \<Rightarrow> index_entries xs | JObj props \<Rightarrow> own_entries props | _ \<Rightarrow> [])"

definition insertion_children :: "json \<Rightarrow> (jsstring \<times> json) list" where
  "insertion_children v =
     (case v of JArr xs \<Rightarrow> index_entries xs | JObj props \<Rightarrow> props | _ \<Rightarrow> [])"

text \<open>The type tag of a leaf.\<close>

definition type_name :: "json \<Rightarrow> jsstring" where
  "type_name v =
     (case v of
        JNull \<Rightarrow> js ''null''
      | JBool _ \<Rightarrow> js ''boolean''
      | JNum _ \<Rightarrow> js ''number''
      | JStr _ \<Rightarrow> js ''string''
      | JArr _ \<Rightarrow> js ''array''
      | JObj _ \<Rightarrow> js ''object'')"

text \<open>The top-level item count: the array length, the number of keys of an object, or 1
  for a scalar.\<close>

definition top_level_count :: "json \<Rightarrow> nat" where
  "top_level_count v = (case v of JArr xs \<Rightarrow> length xs | JObj props \<Rightarrow> length props | _ \<Rightarrow> 1)"

text \<open>The keys of every object in a value are pairwise distinct, as they are in every value
  the engine builds.\<close>

fun distinct_keys :: "json \<Rightarrow> bool" where
  "distinct_keys (JArr xs) = list_all distinct_keys xs"
| "distinct_keys (JObj props) =
     (distinct (map fst props) \<and> list_all (\<lambda>p. distinct_keys (snd p)) props)"
| "distinct_keys _ = True"

text \<open>No key of any object in a value holds the path separator.\<close>

definition dot :: jschar where
  "dot = 0x2E"

fun dot_free_keys :: "json \<Rightarrow> bool" where
  "dot_free_keys (JArr xs) = list_all dot_free_keys xs"
| "dot_free_keys (JObj props) =
     list_all (\<lambda>p. dot \<notin> set (fst p) \<and> dot_free_keys (snd p)) props"
| "dot_free_keys _ = True"

text \<open>The offset a SyntaxError message reports, and 0 when it reports none.\<close>

definition reported_offset :: "jsstring \<Rightarrow> nat" where
  "reported_offset msg =
     (case match_position msg of Some digits \<Rightarrow> decimal_value digits | None \<Rightarrow> 0)"

text \<open>The index of the last newline among the first \<open>offset\<close> characters of a text, and
  \<open>-1\<close> when there is none.\<close>

definition last_newline_before :: "jsstring \<Rightarrow> nat \<Rightarrow> int" where
  "last_newline_before text offset =
     (case filter (\<lambda>i. text ! i = newline) (rev [0..<min offset (length text)]) of
        [] \<Rightarrow> - 1
      | i # _ \<Rightarrow> int i)"

section \<open>Sample data\<close>

text \<open>
  The document of the repository's test, as text and as the value the engine parses it
  to; two malformed texts with the SyntaxError messages of an engine that reports the
  offset, the second at the end of the text; and \<open>sample_parse\<close>, a table of
  \<^verbatim>\<open>JSON.parse\<close> on these texts. They are used at concrete inputs only.
\<close>

definition sample_text :: jsstring where
  "sample_text = js ''{\"a\":1,\"b\":{\"c\":2,\"d\":{\"e\":3}},\"f\":[1,2,3]}''"

definition sample_value :: json where
  "sample_value =
     JObj [(js ''a'', JNum (js ''1'')),
           (js ''b'', JObj [(js ''c'', JNum (js ''2'')),
                            (js ''d'', JObj [(js ''e'', JNum (js ''3''))])]),
           (js ''f'', JArr [JNum (js ''1''), JNum (js ''2''), JNum (js ''3'')])]"

definition bad_text :: jsstring where
  "bad_text = js ''{'' @ [newline] @ js ''  \"a\": }''"

definition bad_message :: jsstring where
  "bad_message = js ''Unexpected token } in JSON at position 9''"

definition unterminated_text :: jsstring where
  "unterminated_text = js ''\"abc''"

definition unterminated_message :: jsstring where
  "unterminated_message = js ''Unterminated string in JSON at position 4''"

definition sample_parse :: "jsstring \<Rightarrow> jsstring + json" where
  "sample_parse s =
     (if s = sample_text then Inr sample_value
      else if s = js ''0'' then Inr (JNum (js ''0''))
      else if s = bad_text then Inl bad_message
      else if s = unterminated_text then Inl unterminated_message
      else Inl (js ''Unexpected end of JSON input''))"

text \<open>An object one of whose keys holds the path separator.\<close>

definition dotted_value :: json where
  "dotted_value =
     JObj [(js ''a'', JObj [(js ''b'', JNum (js ''1''))]), (js ''a.b'', JNum (js ''2''))]"

text \<open>The state after the text \<^verbatim>\<open>0\<close> has been entered into the empty component.\<close>

definition zero_state :: app_state where
  "zero_state =
     \<lparr>jsonInput = js ''0'', parsedJson = JNum (js ''0''), jsonError = None,
      expandedNodes = {}\<rparr>"

text \<open>The state after the sample document has been entered, and the row of its root.\<close>

definition loaded_state :: app_state where
  "loaded_state =
     \<lparr>jsonInput = sample_text, parsedJson = sample_value, jsonError = None,
      expandedNodes = {js ''root''}\<rparr>"

definition root_row :: JsonNode where
  "root_row =
     \<lparr>node_key = js ''root'', node_value = sample_value, node_type = js ''object'',
      node_size = 43, node_path = js ''root'', node_expanded = Some True\<rparr>"

definition sample_state :: app_state where
  "sample_state =
     \<lparr>jsonInput = js ''[true]'', parsedJson = JArr [JBool True], jsonError = None,
      expandedNodes = {js ''root''}\<rparr>"

text \<open>An object with a key that is an array index, created after a key that is not.\<close>

definition reordered_value :: json where
  "reordered_value = JObj [(js ''b'', JNum (js ''1'')), (js ''1'', JNum (js ''2''))]"

section \<open>The tree builder, equation by equation\<close>

lemma foldl_push: "foldl (\<lambda>nodes x. nodes @ f x) acc xs = acc @ concat (map f xs)"
  by (induction xs arbitrary: acc) auto

lemma typeof_leaf [simp]:
  "js ''boolean'' \<noteq> js ''object''" "js ''number'' \<noteq> js ''object''"
  "js ''string'' \<noteq> js ''object''"
  by (simp_all add: js_def)

lemma buildJsonTree_JNull:
  "buildJsonTree E JNull key path =
     [\<lparr>node_key = key, node_value = JNull, node_type = js ''null'',
       node_size = calculateSize JNull, node_path = currentPath key path,
       node_expanded = None\<rparr>]"
  by (simp add: buildJsonTree.simps currentPath_def)

lemma buildJsonTree_JBool:
  "buildJsonTree E (JBool b) key path =
     [\<lparr>node_key = key, node_value = JBool b, node_type = js ''boolean'',
       node_size = calculateSize (JBool b), node_path = currentPath key path,
       node_expanded = None\<rparr>]"
  by (simp add: buildJsonTree.simps currentPath_def Array_isArray_def)

lemma buildJsonTree_JNum:
  "buildJsonTree E (JNum t) key path =
     [\<lparr>node_key = key, node_value = JNum t, node_type = js ''number'',
       node_size = calculateSize (JNum t), node_path = currentPath key path,
       node_expanded = None\<rparr>]"
  by (simp add: buildJsonTree.simps currentPath_def Array_isArray_def)

lemma buildJsonTree_JStr:
  "buildJsonTree E (JStr t) key path =
     [\<lparr>node_key = key, node_value = JStr t, node_type = js ''string'',
       node_size = calculateSize (JStr t), node_path = currentPath key path,
       node_expanded = None\<rparr>]"
  by (simp add: buildJsonTree.simps currentPath_def Array_isArray_def)

lemma buildJsonTree_JArr:
  "buildJsonTree E (JArr xs) key path =
     \<lparr>node_key = (if key = js ''root'' then js ''root''
                   else key @ js '' ['' @ show_nat (length xs) @ js '']''),
      node_value = JArr xs, node_type = js ''array'', node_size = calculateSize (JArr xs),
      node_path = currentPath key path, node_expanded = Some (currentPath key path \<in> E)\<rparr>
     # (if currentPath key path \<in> E
        then concat (map (\<lambda>(k, c). buildJsonTree E c k (currentPath key path))
                       (index_entries xs))
        else [])"
  by (simp add: buildJsonTree.simps [of E "JArr xs"] currentPath_def Array_isArray_def Let_def
      foldl_push index_entries_def case_prod_unfold comp_def)

lemma buildJsonTree_JObj:
  "buildJsonTree E (JObj props) key path =
     \<lparr>node_key = (if key = js ''root'' then js ''root''
                   else key @ js '' {'' @ show_nat (length (Object_keys props)) @ js ''}''),
      node_value = JObj props, node_type = js ''object'', node_size = calculateSize (JObj props),
      node_path = currentPath key path, node_expanded = Some (currentPath key path \<in> E)\<rparr>
     # (if currentPath key path \<in> E
        then concat (map (\<lambda>(k, c). buildJsonTree E c k (currentPath key path))
                       (own_entries props))
        else [])"
  by (simp add: buildJsonTree.simps [of E "JObj props"] currentPath_def Array_isArray_def Let_def
      foldl_push case_prod_unfold)

lemmas buildJsonTree_eqs =
  buildJsonTree_JNull buildJsonTree_JBool buildJsonTree_JNum buildJsonTree_JStr
  buildJsonTree_JArr buildJsonTree_JObj

section \<open>The order of the keys\<close>

lemma length_Object_keys: "length (Object_keys props) = length props"
proof -
  have "length (filter (is_array_index \<circ> fst) props)
        + length (filter ((\<lambda>k. \<not> is_array_index k) \<circ> fst) props) = length props"
    using sum_length_filter_compl [of "is_array_index \<circ> fst" props] by (simp add: comp_def)
  then show ?thesis
    by (simp add: Object_keys_def Let_def filter_map)
qed

lemma set_Object_keys: "set (Object_keys props) = fst ` set props"
  by (auto simp: Object_keys_def Let_def)

lemma distinct_Object_keys:
  "distinct (map fst props) \<Longrightarrow> distinct (Object_keys props)"
  by (auto simp: Object_keys_def Let_def)

lemma map_filter_cong_set:
  "(\<And>x. x \<in> set xs \<Longrightarrow> f x = g x) \<Longrightarrow> List.map_filter f xs = List.map_filter g xs"
  by (induction xs) (auto split: option.splits)

lemma entries_of_keys:
  "distinct (map fst props) \<Longrightarrow>
   List.map_filter (\<lambda>k. map_option (Pair k) (map_of props k)) (map fst props) = props"
proof (induction props)
  case Nil
  show ?case by simp
next
  case (Cons p props)
  obtain k v where p: "p = (k, v)" by (cases p)
  from Cons.prems p have fresh: "k \<notin> fst ` set props" and dist: "distinct (map fst props)"
    by auto
  have "List.map_filter (\<lambda>k'. map_option (Pair k') (map_of (p # props) k')) (map fst props)
        = List.map_filter (\<lambda>k'. map_option (Pair k') (map_of props k')) (map fst props)"
    using fresh p by (intro map_filter_cong_set) auto
  with Cons.IH [OF dist] show ?case
    by (simp add: p)
qed

lemma own_entries_insertion:
  assumes "distinct (map fst props)" and "\<forall>k \<in> fst ` set props. \<not> is_array_index k"
  shows "own_entries props = props"
proof -
  from assms(2) have "filter is_array_index (map fst props) = []"
    and "filter (\<lambda>k. \<not> is_array_index k) (map fst props) = map fst props"
    by (auto simp: filter_empty_conv filter_id_conv)
  then have "Object_keys props = map fst props"
    by (simp add: Object_keys_def Let_def)
  with entries_of_keys [OF assms(1)] show ?thesis
    by (simp add: own_entries_def)
qed

lemma index_entries_nth:
  "i < length xs \<Longrightarrow> index_entries xs ! i = (js ''['' @ show_nat i @ js '']'', xs ! i)"
  by (simp add: index_entries_def nth_enumerate_eq)

lemma map_fst_own_entries: "map fst (own_entries props) = Object_keys props"
proof -
  have "\<forall>k \<in> set ks. k \<in> fst ` set props \<Longrightarrow>
        map fst (List.map_filter (\<lambda>k. map_option (Pair k) (map_of props k)) ks) = ks" for ks
  proof (induction ks)
    case Nil
    show ?case by simp
  next
    case (Cons k ks)
    then obtain v where "map_of props k = Some v"
      by (auto dest: weak_map_of_SomeI)
    with Cons show ?case by simp
  qed
  then show ?thesis
    by (simp add: own_entries_def set_Object_keys)
qed

section \<open>Pre-order traversal\<close>

text \<open>
  C1 (amended). For every value and every expanded set, the builder's result is the
  header node of the value itself, whatever the expansion state, followed, exactly when
  the value is a container whose current path is in the expanded set, by the full results
  of its children, one after the other: pre-order. The children of an array are its
  elements in ascending index order under the keys \<^verbatim>\<open>[0]\<close>, \<^verbatim>\<open>[1]\<close>, ...; the children of
  an object are its properties in the order of \<^verbatim>\<open>Object.keys\<close>, which is the insertion
  order when no key is an array index.
\<close>

theorem buildJsonTree_preorder:
  "(\<exists>h. buildJsonTree E v key path
          = h # (if is_container v \<and> currentPath key path \<in> E
                 then concat (map (\<lambda>(k, c). buildJsonTree E c k (currentPath key path))
                                (children v))
                 else [])
        \<and> node_value h = v \<and> node_path h = currentPath key path)
   \<and> length (children (JArr xs)) = length xs
   \<and> (\<forall>i < length xs. children (JArr xs) ! i = (js ''['' @ show_nat i @ js '']'', xs ! i))
   \<and> map fst (children (JObj props)) = Object_keys props
   \<and> (distinct (map fst props) \<and> (\<forall>k \<in> fst ` set props. \<not> is_array_index k)
        \<longrightarrow> children (JObj props) = insertion_children (JObj props))"
proof -
  have unfold: "\<exists>h. buildJsonTree E v key path
          = h # (if is_container v \<and> currentPath key path \<in> E
                 then concat (map (\<lambda>(k, c). buildJsonTree E c k (currentPath key path))
                                (children v))
                 else [])
        \<and> node_value h = v \<and> node_path h = currentPath key path"
    by (cases v) (simp_all add: buildJsonTree_eqs is_container_def children_def)
  have arr: "length (children (JArr xs)) = length xs"
    by (simp add: children_def index_entries_def)
  have idx: "\<forall>i < length xs. children (JArr xs) ! i = (js ''['' @ show_nat i @ js '']'', xs ! i)"
    by (simp add: children_def index_entries_nth)
  have keys: "map fst (children (JObj props)) = Object_keys props"
    by (simp add: children_def map_fst_own_entries)
  have ins: "distinct (map fst props) \<and> (\<forall>k \<in> fst ` set props. \<not> is_array_index k)
        \<longrightarrow> children (JObj props) = insertion_children (JObj props)"
    by (simp add: children_def insertion_children_def own_entries_insertion)
  from unfold arr idx keys ins show ?thesis
    by blast
qed

lemma sample_keys_distinct: "distinct (map fst (properties sample_value))"
  by (simp add: sample_value_def js_def)

lemma sample_keys_not_indices:
  "\<forall>k \<in> fst ` set (properties sample_value). \<not> is_array_index k"
  by (simp add: sample_value_def js_def is_array_index_def is_digit_def)

lemma sample_paths:
  "map node_path (buildJsonTree {js ''root'', js ''root.b''} sample_value (js ''root'') [])
   = [js ''root'', js ''root.a'', js ''root.b'', js ''root.b.c'', js ''root.b.d'', js ''root.f'']"
  by code_simp

theorem buildJsonTree_preorder_witness:
  "distinct (map fst (properties sample_value))
   \<and> list_all (\<lambda>k. \<not> is_array_index k) (map fst (properties sample_value))
   \<and> children (JObj (properties sample_value)) = insertion_children (JObj (properties sample_value))
   \<and> map node_path (buildJsonTree {js ''root'', js ''root.b''} sample_value (js ''root'') [])
     = [js ''root'', js ''root.a'', js ''root.b'', js ''root.b.c'', js ''root.b.d'', js ''root.f'']"
proof -
  from buildJsonTree_preorder [where props = "properties sample_value"]
    sample_keys_distinct sample_keys_not_indices
  have "children (JObj (properties sample_value)) = insertion_children (JObj (properties sample_value))"
    by blast
  with sample_keys_distinct sample_keys_not_indices sample_paths show ?thesis
    by (simp add: list_all_iff)
qed

text \<open>
  With a key that is an array index, the order is not the insertion order: the rows
  after the header of \<^verbatim>\<open>{"b":1,"1":2}\<close> are those of \<^verbatim>\<open>1\<close> and then \<^verbatim>\<open>b\<close>.
\<close>

theorem insertion_order_counterexample:
  "tl (buildJsonTree {js ''root''} reordered_value (js ''root'') [])
   \<noteq> concat (map (\<lambda>(k, c). buildJsonTree {js ''root''} c k (js ''root''))
                (insertion_children reordered_value))
   \<and> map fst (insertion_children reordered_value) = [js ''b'', js ''1'']
   \<and> map node_key (buildJsonTree {js ''root''} reordered_value (js ''root'') [])
     = [js ''root'', js ''1'', js ''b'']"
  by (simp add: reordered_value_def insertion_children_def buildJsonTree_eqs currentPath_def
      js_def own_entries_def Object_keys_def is_array_index_def is_digit_def decimal_value_def)

section \<open>Paths\<close>

lemma js_dot: "js ''.'' = [dot]"
  by (simp add: js_def dot_def)

lemma unat_digit_char: "d < 10 \<Longrightarrow> unat (digit_char d) = 48 + d"
  by (simp only: digit_char_def unat_of_nat) simp

lemma decimal_value_snoc: "decimal_value (s @ [c]) = 10 * decimal_value s + (unat c - 48)"
  by (simp add: decimal_value_def)

lemma decimal_value_show_nat: "decimal_value (show_nat n) = n"
proof (induction n rule: show_nat.induct)
  case (1 n)
  show ?case
  proof (cases "n < 10")
    case True
    then show ?thesis
      by (simp add: show_nat.simps [of n] decimal_value_def unat_digit_char)
  next
    case False
    with 1 show ?thesis
      by (simp add: show_nat.simps [of n] decimal_value_snoc unat_digit_char)
  qed
qed

lemma show_nat_inj: "show_nat n = show_nat m \<Longrightarrow> n = m"
  by (metis decimal_value_show_nat)

lemma digit_char_not_dot: "d < 10 \<Longrightarrow> digit_char d \<noteq> dot"
proof
  assume "d < 10" and "digit_char d = dot"
  then have "unat (digit_char d) = unat dot" by simp
  with \<open>d < 10\<close> show False
    by (simp add: unat_digit_char dot_def)
qed

lemma dot_not_in_show_nat: "dot \<notin> set (show_nat n)"
proof (induction n rule: show_nat.induct)
  case (1 n)
  show ?case
  proof (cases "n < 10")
    case True
    then show ?thesis
      using digit_char_not_dot [of n] by (auto simp: show_nat.simps [of n])
  next
    case False
    with 1 show ?thesis
      using digit_char_not_dot [of "n mod 10"] by (auto simp: show_nat.simps [of n])
  qed
qed

lemma map_fst_index_entries:
  "map fst (index_entries xs) = map (\<lambda>i. js ''['' @ show_nat i @ js '']'') [0..<length xs]"
proof -
  let ?g = "\<lambda>i. js ''['' @ show_nat i @ js '']''"
  have indices: "map fst (enumerate 0 xs) = [0..<length xs]"
    by (simp add: enumerate_eq_zip)
  have "map fst (index_entries xs) = map (?g \<circ> fst) (enumerate 0 xs)"
    by (simp add: index_entries_def case_prod_unfold comp_def)
  also have "\<dots> = map ?g (map fst (enumerate 0 xs))"
    by (simp only: map_map)
  also have "\<dots> = map ?g [0..<length xs]"
    by (simp only: indices)
  finally show ?thesis .
qed

lemma distinct_index_keys: "distinct (map fst (index_entries xs))"
  by (auto simp: map_fst_index_entries distinct_map inj_on_def dest: show_nat_inj)

lemma index_entry_key:
  assumes "(k, c) \<in> set (index_entries xs)"
  shows "dot \<notin> set k" and "c \<in> set xs"
  using assms
  by (auto simp: index_entries_def in_set_enumerate_eq js_def dot_def dot_not_in_show_nat [unfolded dot_def])

lemma currentPath_child: "cp \<noteq> [] \<Longrightarrow> currentPath k cp = cp @ dot # k"
  by (simp add: currentPath_def js_dot)

lemma hd_path: "node_path (hd (buildJsonTree E v key path)) = currentPath key path"
  by (cases v) (simp_all add: buildJsonTree_eqs)

lemma tl_buildJsonTree:
  "tl (buildJsonTree E v key path)
   = (if is_container v \<and> currentPath key path \<in> E
      then concat (map (\<lambda>(k, c). buildJsonTree E c k (currentPath key path)) (children v))
      else [])"
  by (cases v) (simp_all add: buildJsonTree_eqs is_container_def children_def)

lemma buildJsonTree_not_Nil: "buildJsonTree E v key path \<noteq> []"
  by (cases v) (simp_all add: buildJsonTree_eqs)

lemma json_children_induct:
  assumes step: "\<And>v. (\<And>k c. (k, c) \<in> set (children v) \<Longrightarrow> P c) \<Longrightarrow> P v"
  shows "P v"
proof (induction v)
  case (JArr xs)
  show ?case
  proof (rule step)
    fix k c
    assume "(k, c) \<in> set (children (JArr xs))"
    then have "c \<in> set xs"
      by (simp add: children_def index_entry_key)
    then show "P c" by (rule JArr.IH)
  qed
next
  case (JObj props)
  show ?case
  proof (rule step)
    fix k c
    assume "(k, c) \<in> set (children (JObj props))"
    then have "(k, c) \<in> set props"
      by (simp add: children_def own_entries_subset)
    then show "P c"
      using JObj.IH [of "(k, c)" c] by (simp add: prod_set_defs)
  qed
qed (rule step, simp add: children_def)+

lemma children_distinct_keys:
  assumes "distinct_keys v"
  shows "distinct (map fst (children v))"
    and "(k, c) \<in> set (children v) \<Longrightarrow> distinct_keys c"
proof -
  show "distinct (map fst (children v))"
    using assms
    by (cases v)
      (simp_all add: children_def distinct_index_keys map_fst_own_entries distinct_Object_keys)
  show "distinct_keys c" if kc: "(k, c) \<in> set (children v)"
  proof (cases v)
    case (JArr xs)
    with kc have "c \<in> set xs"
      by (simp add: children_def index_entry_key)
    with assms JArr show ?thesis
      by (simp add: list_all_iff)
  next
    case (JObj props)
    with kc have "(k, c) \<in> set props"
      by (simp add: children_def own_entries_subset)
    with assms JObj show ?thesis
      by (force simp: list_all_iff)
  qed (use kc in \<open>simp_all add: children_def\<close>)
qed

lemma children_dot_free:
  assumes "dot_free_keys v" and kc: "(k, c) \<in> set (children v)"
  shows "dot \<notin> set k \<and> dot_free_keys c"
proof (cases v)
  case (JArr xs)
  with kc have "c \<in> set xs" and "dot \<notin> set k"
    by (simp_all add: children_def index_entry_key)
  with assms JArr show ?thesis
    by (simp add: list_all_iff)
next
  case (JObj props)
  with kc have "(k, c) \<in> set props"
    by (simp add: children_def own_entries_subset)
  with assms JObj show ?thesis
    by (force simp: list_all_iff)
qed (use kc in \<open>simp_all add: children_def\<close>)

text \<open>Every row after the header lies under the path of a child of the header.\<close>

lemma descendant_paths:
  assumes "currentPath key path \<noteq> []" and "n \<in> set (tl (buildJsonTree E v key path))"
  shows "\<exists>k c r. (k, c) \<in> set (children v)
            \<and> n \<in> set (buildJsonTree E c k (currentPath key path))
            \<and> (node_path n = currentPath key path @ dot # k
                 \<or> node_path n = currentPath key path @ dot # k @ dot # r)"
  using assms
proof (induction v arbitrary: key path rule: json_children_induct)
  case (1 v)
  let ?cp = "currentPath key path"
  from "1.prems"(2) obtain k c where kc: "(k, c) \<in> set (children v)"
    and n: "n \<in> set (buildJsonTree E c k ?cp)"
    by (auto simp: tl_buildJsonTree split: if_splits)
  have cp': "currentPath k ?cp = ?cp @ dot # k"
    using "1.prems"(1) by (rule currentPath_child)
  then have ne: "currentPath k ?cp \<noteq> []" by simp
  show ?case
  proof (cases "n = hd (buildJsonTree E c k ?cp)")
    case True
    with kc n cp' show ?thesis
      by (auto simp: hd_path)
  next
    case False
    with n have "n \<in> set (tl (buildJsonTree E c k ?cp))"
      by (cases "buildJsonTree E c k ?cp") auto
    from "1.IH" [OF kc ne this] obtain k' r' where
      "node_path n = currentPath k ?cp @ dot # k'
       \<or> node_path n = currentPath k ?cp @ dot # k' @ dot # r'"
      by blast
    with kc n cp' show ?thesis
      by auto
  qed
qed

lemma child_tag:
  assumes "dot \<notin> set k" and "p = cp @ dot # k \<or> p = cp @ dot # k @ dot # r"
  shows "takeWhile (\<lambda>c. c \<noteq> dot) (drop (Suc (length cp)) p) = k"
proof -
  from assms(1) have "takeWhile (\<lambda>c. c \<noteq> dot) k = k"
    by (simp add: takeWhile_eq_all_conv) blast
  moreover from assms(1) have "takeWhile (\<lambda>c. c \<noteq> dot) (k @ dot # r) = k"
    by (subst takeWhile_append2) auto
  ultimately show ?thesis
    using assms(2) by auto
qed

lemma subtree_tag:
  assumes "cp \<noteq> []" and "dot \<notin> set k" and "n \<in> set (buildJsonTree E c k cp)"
  shows "takeWhile (\<lambda>c. c \<noteq> dot) (drop (Suc (length cp)) (node_path n)) = k"
proof (cases "n = hd (buildJsonTree E c k cp)")
  case True
  with assms(1) have "node_path n = cp @ dot # k"
    by (simp add: hd_path currentPath_child)
  with assms(2) show ?thesis
    by (intro child_tag) auto
next
  case False
  from assms(1) have cp': "currentPath k cp = cp @ dot # k"
    by (rule currentPath_child)
  from False assms(3) have "n \<in> set (tl (buildJsonTree E c k cp))"
    by (cases "buildJsonTree E c k cp") auto
  with descendant_paths [of k cp n E c] cp' obtain r where
    "node_path n = cp @ dot # k @ dot # r"
    by auto
  with assms(2) show ?thesis
    by (intro child_tag) auto
qed

lemma distinct_concat_tagged:
  assumes "distinct (map fst kids)"
    and "\<And>k c. (k, c) \<in> set kids \<Longrightarrow> distinct (map g (f k c))"
    and "\<And>k c n. (k, c) \<in> set kids \<Longrightarrow> n \<in> set (f k c) \<Longrightarrow> tag (g n) = k"
  shows "distinct (map g (concat (map (\<lambda>(k, c). f k c) kids)))"
  using assms
proof (induction kids)
  case Nil
  show ?case by simp
next
  case (Cons kc kids)
  obtain k c where kc: "kc = (k, c)" by (cases kc)
  from Cons.prems(1) kc have fresh: "k \<notin> fst ` set kids" and dist: "distinct (map fst kids)"
    by auto
  have rest: "distinct (map g (concat (map (\<lambda>(k, c). f k c) kids)))"
  proof (rule Cons.IH [OF dist])
    fix k c
    assume "(k, c) \<in> set kids"
    then show "distinct (map g (f k c))"
      using Cons.prems(2) [of k c] by simp
  next
    fix k c n
    assume "(k, c) \<in> set kids" and "n \<in> set (f k c)"
    then show "tag (g n) = k"
      using Cons.prems(3) [of k c n] by simp
  qed
  have here: "distinct (map g (f k c))"
    using Cons.prems(2) kc by simp
  have apart: "g n \<noteq> g n'"
    if "n \<in> set (f k c)" and "(k', c') \<in> set kids" and "n' \<in> set (f k' c')" for n n' k' c'
  proof
    assume "g n = g n'"
    moreover from that(1) kc have "tag (g n) = k"
      using Cons.prems(3) [of k c n] by simp
    moreover from that(2,3) have "tag (g n') = k'"
      using Cons.prems(3) [of k' c' n'] by simp
    ultimately have "k = k'" by simp
    with that(2) fresh show False by force
  qed
  from rest here apart show ?case
    by (auto simp: kc)
qed

lemma distinct_paths:
  assumes "currentPath key path \<noteq> []" and "distinct_keys v" and "dot_free_keys v"
  shows "distinct (map node_path (buildJsonTree E v key path))"
  using assms
proof (induction v arbitrary: key path rule: json_children_induct)
  case (1 v)
  let ?cp = "currentPath key path"
  let ?rest = "concat (map (\<lambda>(k, c). buildJsonTree E c k ?cp) (children v))"
  have ne: "currentPath k ?cp \<noteq> []" for k
    using "1.prems"(1) by (simp add: currentPath_child)
  have "distinct (map node_path ?rest)"
  proof (rule distinct_concat_tagged
      [where tag = "\<lambda>p. takeWhile (\<lambda>c. c \<noteq> dot) (drop (Suc (length ?cp)) p)"])
    show "distinct (map fst (children v))"
      using "1.prems"(2) by (rule children_distinct_keys)
  next
    fix k c
    assume kc: "(k, c) \<in> set (children v)"
    show "distinct (map node_path (buildJsonTree E c k ?cp))"
      using kc ne children_distinct_keys(2) [OF "1.prems"(2) kc]
        children_dot_free [OF "1.prems"(3) kc, THEN conjunct2]
      by (rule "1.IH")
  next
    fix k c n
    assume "(k, c) \<in> set (children v)" and "n \<in> set (buildJsonTree E c k ?cp)"
    with "1.prems"(1) children_dot_free [OF "1.prems"(3), of k c]
    show "takeWhile (\<lambda>c. c \<noteq> dot) (drop (Suc (length ?cp)) (node_path n)) = k"
      by (intro subtree_tag) simp_all
  qed
  then have below: "distinct (map node_path (tl (buildJsonTree E v key path)))"
    by (simp add: tl_buildJsonTree)
  have "?cp \<notin> node_path ` set (tl (buildJsonTree E v key path))"
  proof
    assume "?cp \<in> node_path ` set (tl (buildJsonTree E v key path))"
    then obtain n where "n \<in> set (tl (buildJsonTree E v key path))" and "node_path n = ?cp"
      by (auto simp: image_iff)
    with descendant_paths [OF "1.prems"(1), of n E v] show False
      by auto
  qed
  with below have "distinct (map node_path (hd (buildJsonTree E v key path)
                                             # tl (buildJsonTree E v key path)))"
    by (simp add: hd_path)
  then show ?case
    using buildJsonTree_not_Nil [of E v key path] by simp
qed


text \<open>
  C4 (amended). In one build from a non-empty current path, as the top-level call under
  the key \<^verbatim>\<open>root\<close> is, the path of a value is a strict prefix of the path of every row
  below it, and the path of each child is the path of its parent, the separator and the
  child's key. When no key of any object in the value holds the separator, the paths of
  the rows are pairwise distinct.
\<close>

theorem paths_nested_and_unique:
  assumes "currentPath key path \<noteq> []"
  shows "node_path (hd (buildJsonTree E v key path)) = currentPath key path
       \<and> (\<forall>n \<in> set (tl (buildJsonTree E v key path)).
             strict_prefix (currentPath key path) (node_path n))
       \<and> (\<forall>(k, c) \<in> set (children v).
             node_path (hd (buildJsonTree E c k (currentPath key path)))
             = currentPath key path @ js ''.'' @ k)
       \<and> (distinct_keys v \<and> dot_free_keys v
            \<longrightarrow> distinct (map node_path (buildJsonTree E v key path)))"
proof (intro conjI)
  show "node_path (hd (buildJsonTree E v key path)) = currentPath key path"
    by (rule hd_path)
  show "\<forall>n \<in> set (tl (buildJsonTree E v key path)).
          strict_prefix (currentPath key path) (node_path n)"
  proof
    fix n
    assume "n \<in> set (tl (buildJsonTree E v key path))"
    from descendant_paths [OF assms this]
    obtain r where "node_path n = currentPath key path @ dot # r"
      by auto
    then show "strict_prefix (currentPath key path) (node_path n)"
      by (simp add: strict_prefix_def)
  qed
  show "\<forall>(k, c) \<in> set (children v).
          node_path (hd (buildJsonTree E c k (currentPath key path)))
          = currentPath key path @ js ''.'' @ k"
    using assms by (simp add: hd_path currentPath_child js_dot case_prod_unfold)
  show "distinct_keys v \<and> dot_free_keys v
        \<longrightarrow> distinct (map node_path (buildJsonTree E v key path))"
    using assms by (simp add: distinct_paths)
qed

text \<open>
  With the key \<^verbatim>\<open>a.b\<close> beside the key \<^verbatim>\<open>a\<close> whose object has the key \<^verbatim>\<open>b\<close>, two rows
  have the path \<^verbatim>\<open>root.a.b\<close>.
\<close>

lemma dotted_keys_distinct: "distinct_keys dotted_value"
  by (simp add: dotted_value_def js_def)

lemma dotted_paths:
  "map node_path (buildJsonTree {js ''root'', js ''root.a''} dotted_value (js ''root'') [])
   = [js ''root'', js ''root.a'', js ''root.a.b'', js ''root.a.b'']"
  by code_simp

theorem dotted_key_counterexample:
  "distinct_keys dotted_value
   \<and> \<not> distinct (map node_path
         (buildJsonTree {js ''root'', js ''root.a''} dotted_value (js ''root'') []))
   \<and> map node_path (buildJsonTree {js ''root'', js ''root.a''} dotted_value (js ''root'') [])
     = [js ''root'', js ''root.a'', js ''root.a.b'', js ''root.a.b'']"
  by (simp add: dotted_keys_distinct dotted_paths)

lemma sample_wf: "distinct_keys sample_value" "dot_free_keys sample_value"
  by (simp_all add: sample_value_def js_def dot_def)

lemma root_path: "currentPath (js ''root'') [] = js ''root''"
  by (simp add: currentPath_def)

theorem paths_nested_and_unique_witness:
  "currentPath (js ''root'') [] = js ''root''
   \<and> distinct_keys sample_value \<and> dot_free_keys sample_value
   \<and> distinct (map node_path
         (buildJsonTree {js ''root'', js ''root.b''} sample_value (js ''root'') []))
   \<and> list_all (\<lambda>n. strict_prefix (js ''root'') (node_path n))
         (tl (buildJsonTree {js ''root'', js ''root.b''} sample_value (js ''root'') []))"
proof -
  have ne: "currentPath (js ''root'') [] \<noteq> []"
    unfolding root_path by (simp add: js_def)
  from paths_nested_and_unique [OF ne, of "{js ''root'', js ''root.b''}" sample_value]
    sample_wf root_path
  show ?thesis
    by (simp add: list_all_iff)
qed

section \<open>Sizes\<close>

text \<open>
  C2. The size of every node of a build is the number of bytes of the UTF-8 encoding of
  the serialization, with no indentation, of that node's own value; the first node is the
  one of the value given, with the size of that value; and the total shown in the header is
  the same measure of the whole parsed value. The sizes are computed from the value at
  each build: they depend on nothing else.
\<close>

theorem node_size_is_byte_length:
  "(\<forall>n \<in> set (buildJsonTree E v key path).
       node_size n = length (utf8_encode (JSON_stringify (node_value n))))
   \<and> (\<exists>h rest. buildJsonTree E v key path = h # rest \<and> node_value h = v
         \<and> node_size h = length (utf8_encode (JSON_stringify v)))
   \<and> (truthy v \<longrightarrow> headerSize v = Some (length (utf8_encode (JSON_stringify v))))"
proof -
  have all: "\<forall>n \<in> set (buildJsonTree E v key path).
       node_size n = length (utf8_encode (JSON_stringify (node_value n)))" for key path
  proof (induction v arbitrary: key path)
    case (JArr xs)
    have "x \<in> set xs" if "(k, x) \<in> set (index_entries xs)" for k x
      using that by (auto simp: index_entries_def in_set_enumerate_eq)
    with JArr have "node_size n = length (utf8_encode (JSON_stringify (node_value n)))"
      if "(k, x) \<in> set (index_entries xs)" and "n \<in> set (buildJsonTree E x k p)" for k x n p
      using that by blast
    then show ?case
      by (auto simp: buildJsonTree_JArr calculateSize_def Blob_size_def)
  next
    case (JObj props)
    have "(k, x) \<in> set props" if "(k, x) \<in> set (own_entries props)" for k x
      using that by (rule own_entries_subset)
    with JObj have "node_size n = length (utf8_encode (JSON_stringify (node_value n)))"
      if "(k, x) \<in> set (own_entries props)" and "n \<in> set (buildJsonTree E x k p)" for k x n p
      using that by (fastforce simp: prod_set_defs)
    then show ?case
      by (auto simp: buildJsonTree_JObj calculateSize_def Blob_size_def)
  qed (simp_all add: buildJsonTree_eqs calculateSize_def Blob_size_def)
  have first: "\<exists>h rest. buildJsonTree E v key path = h # rest \<and> node_value h = v
         \<and> node_size h = length (utf8_encode (JSON_stringify v))"
    by (cases v) (simp_all add: buildJsonTree_eqs calculateSize_def Blob_size_def)
  from all first show ?thesis
    by (simp add: headerSize_def Blob_size_def)
qed

lemma sample_sizes:
  "map node_size (buildJsonTree {js ''root''} sample_value (js ''root'') []) = [43, 1, 19, 7]"
  by code_simp

lemma sample_serialized: "JSON_stringify sample_value = sample_text"
  by code_simp

lemma sample_bytes: "length (utf8_encode sample_text) = 43"
  by code_simp

lemma pair_quoted: "JSON_stringify (JStr [0xD83D, 0xDE00]) = [0x22, 0xD83D, 0xDE00, 0x22]"
  by (simp add: QuoteJSONString_def is_lead_surrogate_def is_trail_surrogate_def)

lemma pair_bytes:
  "utf8_encode [0x22, 0xD83D, 0xDE00, 0x22] = [0x22, 0xF0, 0x9F, 0x98, 0x80, 0x22]"
  by (simp add: is_lead_surrogate_def is_trail_surrogate_def)

lemma pair_quoted_length: "length (JSON_stringify (JStr [0xD83D, 0xDE00])) = 4"
  by (simp only: pair_quoted) simp

lemma pair_row:
  "map node_size (buildJsonTree {} (JStr [0xD83D, 0xDE00]) (js ''root'') []) = [6]"
  by (simp only: buildJsonTree_JStr calculateSize_def Blob_size_def pair_quoted pair_bytes) simp

text \<open>
  The rows of the sample document with the root expanded have the sizes 43, 1, 19 and 7;
  a string of one surrogate pair is quoted to four code units and measures six bytes.
\<close>

theorem node_size_is_byte_length_witness:
  "truthy sample_value
   \<and> JSON_stringify sample_value = sample_text
   \<and> headerSize sample_value = Some 43
   \<and> map node_size (buildJsonTree {js ''root''} sample_value (js ''root'') []) = [43, 1, 19, 7]
   \<and> list_all (\<lambda>n. node_size n = length (utf8_encode (JSON_stringify (node_value n))))
        (buildJsonTree {js ''root''} sample_value (js ''root'') [])
   \<and> length (JSON_stringify (JStr [0xD83D, 0xDE00])) = 4
   \<and> map node_size (buildJsonTree {} (JStr [0xD83D, 0xDE00]) (js ''root'') []) = [6]"
proof -
  have t: "truthy sample_value"
    by (simp add: sample_value_def truthy_def)
  from node_size_is_byte_length [of "{js ''root''}" sample_value "js ''root''" "[]"] t
  have "headerSize sample_value = Some 43
        \<and> list_all (\<lambda>n. node_size n = length (utf8_encode (JSON_stringify (node_value n))))
             (buildJsonTree {js ''root''} sample_value (js ''root'') [])"
    by (simp add: sample_serialized sample_bytes list_all_iff)
  with t sample_serialized sample_sizes pair_quoted_length pair_row show ?thesis
    by (intro conjI) (simp_all only:)
qed

section \<open>Display keys and type tags\<close>

text \<open>
  C7 (amended). Under a key other than \<^verbatim>\<open>root\<close>, the display key of a container is the
  key, a space and the child count: in brackets the number of elements of an array, in
  braces the number of keys of an object. The top-level call, under the key \<^verbatim>\<open>root\<close>,
  displays \<^verbatim>\<open>root\<close> alone. A leaf keeps its key and is tagged \<^verbatim>\<open>null\<close>,
  \<^verbatim>\<open>boolean\<close>, \<^verbatim>\<open>number\<close> or \<^verbatim>\<open>string\<close>.
\<close>

theorem display_key_suffix:
  "(key \<noteq> js ''root'' \<longrightarrow>
      (\<exists>h rest. buildJsonTree E (JArr xs) key path = h # rest
          \<and> node_key h = key @ js '' ['' @ show_nat (length xs) @ js '']''
          \<and> node_type h = js ''array'')
    \<and> (\<exists>h rest. buildJsonTree E (JObj props) key path = h # rest
          \<and> node_key h = key @ js '' {'' @ show_nat (length props) @ js ''}''
          \<and> node_type h = js ''object''))
   \<and> (\<exists>h rest. buildJsonTree E (JArr xs) (js ''root'') [] = h # rest \<and> node_key h = js ''root'')
   \<and> (\<exists>h rest. buildJsonTree E (JObj props) (js ''root'') [] = h # rest \<and> node_key h = js ''root'')
   \<and> (\<not> is_container v \<longrightarrow>
        (\<exists>h. buildJsonTree E v key path = [h] \<and> node_key h = key \<and> node_type h = type_name v))"
proof -
  have leaf: "\<not> is_container v \<longrightarrow>
        (\<exists>h. buildJsonTree E v key path = [h] \<and> node_key h = key \<and> node_type h = type_name v)"
    by (cases v) (simp_all add: buildJsonTree_eqs is_container_def type_name_def)
  show ?thesis
    using leaf by (simp add: buildJsonTree_JArr buildJsonTree_JObj length_Object_keys)
qed

text \<open>The display key of a top-level array of two elements does not end in \<^verbatim>\<open>[2]\<close>.\<close>

theorem root_key_counterexample:
  "\<not> suffix (js ''[2]'') (node_key (hd (buildJsonTree {} (JArr [JNull, JNull]) (js ''root'') [])))
   \<and> node_key (hd (buildJsonTree {} (JArr [JNull, JNull]) (js ''root'') [])) = js ''root''"
  by (simp add: buildJsonTree_JArr js_def suffix_Cons)

theorem display_key_suffix_witness:
  "js ''f'' \<noteq> js ''root''
   \<and> (\<exists>h rest. buildJsonTree {js ''root''} (JArr [JNum (js ''1''), JNum (js ''2''), JNum (js ''3'')])
                   (js ''f'') (js ''root'') = h # rest
          \<and> node_key h = js ''f [3]'' \<and> node_type h = js ''array'')
   \<and> \<not> is_container (JNum (js ''1''))
   \<and> (\<exists>h. buildJsonTree {js ''root''} (JNum (js ''1'')) (js ''a'') (js ''root'') = [h]
          \<and> node_key h = js ''a'' \<and> node_type h = js ''number'')"
proof -
  have key: "js ''f'' \<noteq> js ''root''"
    by (simp add: js_def)
  have leaf: "\<not> is_container (JNum (js ''1''))"
    by (simp add: is_container_def)
  have shown: "js ''f'' @ js '' ['' @ show_nat (length [JNum (js ''1''), JNum (js ''2''), JNum (js ''3'')]) @ js '']''
               = js ''f [3]''"
    by (simp add: show_nat.simps digit_char_def js_def)
  have tag: "type_name (JNum (js ''1'')) = js ''number''"
    by (simp add: type_name_def)
  from display_key_suffix [where key = "js ''f''" and E = "{js ''root''}"
      and xs = "[JNum (js ''1''), JNum (js ''2''), JNum (js ''3'')]" and path = "js ''root''"
      and v = "JNum (js ''1'')"]
    display_key_suffix [where key = "js ''a''" and E = "{js ''root''}"
      and path = "js ''root''" and v = "JNum (js ''1'')"]
    key leaf
  show ?thesis
    unfolding shown tag by blast
qed

section \<open>The item count of the header\<close>

text \<open>
  C9. The item count is the length of a top-level array, the number of keys of a
  top-level object, and 1 for a scalar; the header, which is shown for a truthy parsed
  value, reports this count; for the document of the repository's test it reports 3.
\<close>

theorem item_count_top_level:
  "itemCount v = top_level_count v
   \<and> (truthy v \<longrightarrow> headerItems v = Some (top_level_count v))
   \<and> headerItems sample_value = Some 3"
proof -
  have count: "itemCount v = top_level_count v" for v
    by (cases v)
      (simp_all add: itemCount_def top_level_count_def Array_isArray_def length_Object_keys)
  have "truthy sample_value" "top_level_count sample_value = 3"
    by (simp_all add: sample_value_def truthy_def top_level_count_def)
  with count show ?thesis
    by (simp add: headerItems_def)
qed

theorem item_count_top_level_witness:
  "truthy sample_value \<and> top_level_count sample_value = 3
   \<and> headerItems sample_value = Some (top_level_count sample_value)"
proof -
  have t: "truthy sample_value"
    by (simp add: sample_value_def truthy_def)
  have c: "top_level_count sample_value = 3"
    by (simp add: sample_value_def top_level_count_def)
  from item_count_top_level [of sample_value] t c show ?thesis
    by simp
qed

section \<open>Parsing: the neutral state, and value and error exclude each other\<close>

lemma split_not_Nil: "split sep s \<noteq> []"
  by (induction s) (auto split: list.splits)

lemma at_index_last: "xs \<noteq> [] \<Longrightarrow> at_index xs (int (length xs) - 1) = Some (last xs)"
  by (cases xs rule: rev_cases) (auto simp: at_index_def nth_append)

lemma trim_blank:
  assumes "\<forall>c \<in> set s. is_whitespace c"
  shows "trim s = []"
proof -
  from assms have "dropWhile is_whitespace s = []"
    by (induction s) auto
  then show ?thesis
    by (simp only: trim_def rev.simps dropWhile.simps)
qed

text \<open>
  C5. An input that is empty or holds only whitespace leaves the parse in the neutral
  state: no parsed value and no error, whatever the state before, and without the engine's
  parser being consulted.
\<close>

theorem blank_input_is_neutral:
  assumes "\<forall>c \<in> set input. is_whitespace c"
  shows "parseJsonWithError JSON_parse input st
         = Inr (st\<lparr>parsedJson := JNull, jsonError := None\<rparr>)"
  using assms by (simp add: parseJsonWithError_def trim_blank)

theorem blank_input_is_neutral_witness:
  "parseJsonWithError sample_parse (js ''  '' @ [newline, 0x09]) sample_state
   = Inr (sample_state\<lparr>parsedJson := JNull, jsonError := None\<rparr>)"
proof -
  have blank: "\<forall>c \<in> set (js ''  '' @ [newline, 0x09]). is_whitespace c"
    by (simp add: js_def newline_def is_whitespace_def)
  from blank_input_is_neutral [OF blank] show ?thesis .
qed

text \<open>
  C6. Every call of the parse returns, and afterwards at most one of the parsed value and
  the error is set. The result does not depend on the value and error held before; a
  successful parse stores the value and clears the error; a failing parse clears the value
  and stores an error.
\<close>

theorem parse_value_error_exclusive:
  "(\<exists>st'. parseJsonWithError JSON_parse input st = Inr st'
       \<and> (parsedJson st' = JNull \<or> jsonError st' = None)
       \<and> jsonInput st' = jsonInput st \<and> expandedNodes st' = expandedNodes st)
   \<and> parseJsonWithError JSON_parse input (st\<lparr>parsedJson := v0, jsonError := e0\<rparr>)
       = parseJsonWithError JSON_parse input st
   \<and> (trim input \<noteq> [] \<and> JSON_parse input = Inr v \<longrightarrow>
        parseJsonWithError JSON_parse input st = Inr (st\<lparr>parsedJson := v, jsonError := None\<rparr>))
   \<and> (trim input \<noteq> [] \<and> JSON_parse input = Inl m \<longrightarrow>
        (\<exists>e. parseJsonWithError JSON_parse input st
                = Inr (st\<lparr>parsedJson := JNull, jsonError := Some e\<rparr>)))"
  by (auto simp: parseJsonWithError_def Let_def at_index_last split_not_Nil split: sum.splits)


lemma trim_bad_text: "trim bad_text \<noteq> []"
  by (simp add: trim_def bad_text_def js_def newline_def is_whitespace_def)

lemma sample_parse_bad_text: "sample_parse bad_text = Inl bad_message"
  by (simp add: sample_parse_def bad_text_def sample_text_def js_def newline_def)

lemma trim_sample_text: "trim sample_text \<noteq> []"
  by (simp add: trim_def sample_text_def js_def is_whitespace_def)

lemma sample_parse_sample_text: "sample_parse sample_text = Inr sample_value"
  by (simp add: sample_parse_def)

theorem parse_value_error_exclusive_witness:
  "trim sample_text \<noteq> [] \<and> sample_parse sample_text = Inr sample_value
   \<and> parseJsonWithError sample_parse sample_text sample_state
     = Inr (sample_state\<lparr>parsedJson := sample_value, jsonError := None\<rparr>)
   \<and> trim bad_text \<noteq> [] \<and> sample_parse bad_text = Inl bad_message
   \<and> (\<exists>e. parseJsonWithError sample_parse bad_text sample_state
            = Inr (sample_state\<lparr>parsedJson := JNull, jsonError := Some e\<rparr>))"
  using parse_value_error_exclusive
          [where JSON_parse = sample_parse and input = sample_text and st = sample_state
             and v = sample_value]
        parse_value_error_exclusive
          [where JSON_parse = sample_parse and input = bad_text and st = sample_state
             and m = bad_message]
        trim_bad_text sample_parse_bad_text trim_sample_text sample_parse_sample_text
  by simp

section \<open>Error location\<close>

lemma length_split: "length (split sep s) = Suc (count_list s sep)"
  by (induction s) (auto split: list.splits simp: split_not_Nil)

lemma split_snoc:
  "split sep (s @ [c]) =
     (if c = sep then split sep s @ [[]]
      else butlast (split sep s) @ [last (split sep s) @ [c]])"
  by (induction s) (auto split: list.splits simp: split_not_Nil)

lemma last_split_column:
  "int (length (last (split sep s))) + 1
   = int (length s)
     - (case filter (\<lambda>i. s ! i = sep) (rev [0..<length s]) of [] \<Rightarrow> - 1 | i # _ \<Rightarrow> int i)"
proof (induction s rule: rev_induct)
  case Nil
  show ?case by simp
next
  case (snoc c s)
  have same: "filter (\<lambda>i. (s @ [c]) ! i = sep) (rev [0..<length s])
              = filter (\<lambda>i. s ! i = sep) (rev [0..<length s])"
    by (rule filter_cong) (auto simp: nth_append)
  show ?case
  proof (cases "c = sep")
    case True
    then show ?thesis by (simp add: split_snoc)
  next
    case False
    with snoc same show ?thesis by (simp add: split_snoc nth_append)
  qed
qed

lemma column_of_take:
  "int (length (last (split newline (take offset input)))) + 1
   = int (min offset (length input)) - last_newline_before input offset"
proof -
  have "filter (\<lambda>i. take offset input ! i = newline) (rev [0..<min offset (length input)])
        = filter (\<lambda>i. input ! i = newline) (rev [0..<min offset (length input)])"
    by (rule filter_cong) auto
  with last_split_column [of newline "take offset input"] show ?thesis
    by (simp add: last_newline_before_def min.commute)
qed

text \<open>
  C3. When the parse of a text fails, the error stored has the message of the engine, the
  offset the message reports (0 when it reports none), the line 1 + the number of newlines
  among the first \<open>offset\<close> characters, and the column \<open>offset\<close> minus the index of the
  last newline before \<open>offset\<close> (minus \<open>-1\<close> when there is none), for every offset up to
  the length of the text, that length included; an offset beyond the text counts as the
  length. The computation always returns: it reads no line outside the array of lines.
\<close>

theorem error_location:
  assumes "trim input \<noteq> []" and "JSON_parse input = Inl msg"
  shows "\<exists>e. parseJsonWithError JSON_parse input st
               = Inr (st\<lparr>parsedJson := JNull, jsonError := Some e\<rparr>)
           \<and> message e = msg
           \<and> position e = reported_offset msg
           \<and> line e = 1 + count_list (take (reported_offset msg) input) newline
           \<and> int (column e) = int (min (reported_offset msg) (length input))
                               - last_newline_before input (reported_offset msg)
           \<and> (reported_offset msg \<le> length input \<longrightarrow>
                int (column e) = int (reported_offset msg)
                                 - last_newline_before input (reported_offset msg))"
proof -
  let ?lines = "split newline (take (reported_offset msg) input)"
  let ?e = "\<lparr>message = msg, line = length ?lines, column = length (last ?lines) + 1,
             position = reported_offset msg\<rparr>"
  from assms have "parseJsonWithError JSON_parse input st
                   = Inr (st\<lparr>parsedJson := JNull, jsonError := Some ?e\<rparr>)"
    by (simp add: parseJsonWithError_def Let_def reported_offset_def at_index_last split_not_Nil)
  moreover have "line ?e = 1 + count_list (take (reported_offset msg) input) newline"
    by (simp add: length_split)
  moreover have "int (column ?e) = int (min (reported_offset msg) (length input))
                               - last_newline_before input (reported_offset msg)"
    using column_of_take [of "reported_offset msg" input] by simp
  ultimately show ?thesis
    by (intro exI [of _ ?e]) (simp add: min_def)
qed

lemma bad_offset: "reported_offset bad_message = 9"
  by (simp add: reported_offset_def bad_message_def js_def is_digit_def decimal_value_def)

lemma bad_newlines: "count_list (take 9 bad_text) newline = 1"
  by (simp add: bad_text_def js_def newline_def)

lemma bad_last_newline: "last_newline_before bad_text 9 = 1"
  by (simp add: last_newline_before_def bad_text_def js_def newline_def upt_rec)

lemma unterminated_facts:
  "trim unterminated_text \<noteq> []" "sample_parse unterminated_text = Inl unterminated_message"
  "reported_offset unterminated_message = 4" "length unterminated_text = 4"
  "count_list unterminated_text newline = 0"
  "last_newline_before unterminated_text 4 = - 1"
  by (simp_all add: trim_def unterminated_text_def unterminated_message_def sample_parse_def
      sample_text_def bad_text_def reported_offset_def last_newline_before_def js_def
      is_whitespace_def is_digit_def decimal_value_def newline_def upt_rec)

text \<open>
  A text of two lines that fails at offset 9, on line 2 at column 8; and a text of four
  characters that fails at its end, offset 4, on line 1 at column 5.
\<close>

theorem error_location_witness:
  "trim bad_text \<noteq> [] \<and> sample_parse bad_text = Inl bad_message
   \<and> reported_offset bad_message = 9 \<and> length bad_text = 10
   \<and> parseJsonWithError sample_parse bad_text sample_state
     = Inr (sample_state\<lparr>parsedJson := JNull,
              jsonError := Some \<lparr>message = bad_message, line = 2, column = 8, position = 9\<rparr>\<rparr>)
   \<and> trim unterminated_text \<noteq> [] \<and> sample_parse unterminated_text = Inl unterminated_message
   \<and> reported_offset unterminated_message = 4 \<and> length unterminated_text = 4
   \<and> parseJsonWithError sample_parse unterminated_text sample_state
     = Inr (sample_state\<lparr>parsedJson := JNull,
              jsonError := Some \<lparr>message = unterminated_message, line = 1, column = 5,
                                 position = 4\<rparr>\<rparr>)"
proof -
  have len: "length bad_text = 10"
    by (simp add: bad_text_def js_def)
  from error_location [where JSON_parse = sample_parse and input = bad_text
      and msg = bad_message and st = sample_state, OF trim_bad_text sample_parse_bad_text]
  obtain e where
    "parseJsonWithError sample_parse bad_text sample_state
       = Inr (sample_state\<lparr>parsedJson := JNull, jsonError := Some e\<rparr>)"
    "message e = bad_message" "position e = 9" "line e = 2" "int (column e) = 8"
    by (auto simp: bad_offset bad_newlines bad_last_newline len)
  then have first: "parseJsonWithError sample_parse bad_text sample_state
     = Inr (sample_state\<lparr>parsedJson := JNull,
              jsonError := Some \<lparr>message = bad_message, line = 2, column = 8, position = 9\<rparr>\<rparr>)"
    by (cases e) simp
  from error_location [where JSON_parse = sample_parse and input = unterminated_text
      and msg = unterminated_message and st = sample_state, OF unterminated_facts(1,2)]
  obtain e' where
    "parseJsonWithError sample_parse unterminated_text sample_state
       = Inr (sample_state\<lparr>parsedJson := JNull, jsonError := Some e'\<rparr>)"
    "message e' = unterminated_message" "position e' = 4" "line e' = 1" "int (column e') = 5"
    by (auto simp: unterminated_facts)
  then have second: "parseJsonWithError sample_parse unterminated_text sample_state
     = Inr (sample_state\<lparr>parsedJson := JNull,
              jsonError := Some \<lparr>message = unterminated_message, line = 1, column = 5,
                                 position = 4\<rparr>\<rparr>)"
    by (cases e') simp
  from first second trim_bad_text sample_parse_bad_text bad_offset len unterminated_facts
  show ?thesis
    by blast
qed

section \<open>The expanded set of a running component\<close>

lemma expandRootEffect_parsedJson [simp]: "parsedJson (expandRootEffect st) = parsedJson st"
  by (simp add: expandRootEffect_def)

lemma expandRootEffect_nonempty:
  "truthy (parsedJson st) \<Longrightarrow> expandedNodes (expandRootEffect st) \<noteq> {}"
  by (simp add: expandRootEffect_def)

lemma on_input_settled:
  assumes "on_input JSON_parse input st = Inr st'" and "truthy (parsedJson st')"
  shows "expandedNodes st' \<noteq> {}"
proof -
  from assms(1) obtain st1 where "st' = expandRootEffect st1"
    by (auto simp: on_input_def split: sum.splits)
  with assms(2) show ?thesis
    by (simp add: expandRootEffect_nonempty)
qed

lemma on_click_settled:
  assumes "truthy (parsedJson st) \<longrightarrow> expandedNodes st \<noteq> {}"
    and "truthy (parsedJson (on_click node st))"
  shows "expandedNodes (on_click node st) \<noteq> {}"
  using assms by (auto simp: on_click_def expandRootEffect_def split: if_splits)

lemma reachable_invariant:
  "reachable JSON_parse st \<Longrightarrow> truthy (parsedJson st) \<longrightarrow> expandedNodes st \<noteq> {}"
proof (induction rule: reachable.induct)
  case start
  show ?case by (simp add: initial_state_def truthy_def)
next
  case (edit st input st')
  show ?case
    by (rule impI) (rule on_input_settled [OF edit.hyps(2)])
next
  case (click st node)
  show ?case
    by (rule impI) (rule on_click_settled [OF click.IH])
qed

text \<open>
  C10 (amended). In every reachable state whose parsed value is truthy (an array, an
  object, \<^verbatim>\<open>true\<close>, a number other than zero, a string other than the empty one), the
  expanded set is not empty. A click that would empty the set while such a value is parsed
  leaves it the singleton of \<^verbatim>\<open>root\<close>; so collapsing the root when nothing else is
  expanded leaves the root expanded.
\<close>

theorem expanded_never_empty:
  "(reachable JSON_parse st \<and> truthy (parsedJson st) \<longrightarrow> expandedNodes st \<noteq> {})
   \<and> (truthy (parsedJson st) \<and> canExpand node
        \<and> toggleNode (node_path node) (expandedNodes st) = {}
        \<longrightarrow> expandedNodes (on_click node st) = {js ''root''})
   \<and> (truthy (parsedJson st) \<and> canExpand node \<and> node_path node = js ''root''
        \<and> expandedNodes st = {js ''root''}
        \<longrightarrow> expandedNodes (on_click node st) = {js ''root''})"
proof (intro conjI)
  show "reachable JSON_parse st \<and> truthy (parsedJson st) \<longrightarrow> expandedNodes st \<noteq> {}"
    by (rule impI, erule conjE, drule reachable_invariant, erule (1) mp)
  show reset: "truthy (parsedJson st) \<and> canExpand node
        \<and> toggleNode (node_path node) (expandedNodes st) = {}
        \<longrightarrow> expandedNodes (on_click node st) = {js ''root''}" for st
    by (simp add: on_click_def expandRootEffect_def)
  have "toggleNode (js ''root'') {js ''root''} = {}"
    by (simp add: toggleNode_def Let_def)
  with reset [of st]
  show "truthy (parsedJson st) \<and> canExpand node \<and> node_path node = js ''root''
        \<and> expandedNodes st = {js ''root''}
        \<longrightarrow> expandedNodes (on_click node st) = {js ''root''}"
    by simp
qed

lemma parse_zero: "sample_parse (js ''0'') = Inr (JNum (js ''0''))"
  by (simp add: sample_parse_def sample_text_def js_def)

lemma trim_zero: "trim (js ''0'') \<noteq> []"
  by (simp add: trim_def js_def is_whitespace_def)

lemma input_zero: "on_input sample_parse (js ''0'') initial_state = Inr zero_state"
  by (simp add: on_input_def parseJsonWithError_def parse_zero trim_zero expandRootEffect_def
      truthy_def initial_state_def zero_state_def)

text \<open>
  After the text \<^verbatim>\<open>0\<close> has been entered, the value 0 is parsed and the expanded set is
  empty: zero is falsy, and the effect does not fire.
\<close>

theorem falsy_value_counterexample:
  "reachable sample_parse zero_state \<and> parsedJson zero_state = JNum (js ''0'')
   \<and> expandedNodes zero_state = {}"
proof -
  have "reachable sample_parse zero_state"
    using reachable.start input_zero by (rule reachable.edit)
  then show ?thesis
    by (simp add: zero_state_def)
qed


lemma input_sample: "on_input sample_parse sample_text initial_state = Inr loaded_state"
  by (simp add: on_input_def parseJsonWithError_def sample_parse_sample_text trim_sample_text
      expandRootEffect_def truthy_def initial_state_def loaded_state_def sample_value_def)

lemma reachable_loaded: "reachable sample_parse loaded_state"
  using reachable.start input_sample by (rule reachable.edit)

lemma truthy_loaded: "truthy (parsedJson loaded_state)"
  by (simp add: loaded_state_def sample_value_def truthy_def)

lemma root_row_shown:
  "hd (jsonTree (expandedNodes loaded_state) (parsedJson loaded_state)) = root_row"
  by code_simp

lemma root_row_canExpand: "canExpand root_row"
  by (simp add: canExpand_def root_row_def)

lemma root_row_toggle: "toggleNode (node_path root_row) (expandedNodes loaded_state) = {}"
  by (simp add: toggleNode_def Let_def root_row_def loaded_state_def)

theorem expanded_never_empty_witness:
  "reachable sample_parse loaded_state \<and> truthy (parsedJson loaded_state)
   \<and> expandedNodes loaded_state \<noteq> {}
   \<and> hd (jsonTree (expandedNodes loaded_state) (parsedJson loaded_state)) = root_row
   \<and> canExpand root_row
   \<and> toggleNode (node_path root_row) (expandedNodes loaded_state) = {}
   \<and> expandedNodes (on_click root_row loaded_state) = {js ''root''}"
  using expanded_never_empty [of sample_parse loaded_state root_row]
    reachable_loaded truthy_loaded root_row_shown root_row_canExpand root_row_toggle
  by simp

section \<open>Toggling\<close>

text \<open>
  C8. Toggling a path flips the membership of that path in the expanded set and of no
  other path, so the memberships of its descendants stay as they were. Toggling the same
  path twice gives back the set, and with it the same node sequence.
\<close>

theorem toggleNode_flips_one:
  "(\<forall>q. (q \<in> toggleNode p S) = (if q = p then q \<notin> S else q \<in> S))
   \<and> toggleNode p (toggleNode p S) = S
   \<and> jsonTree (toggleNode p (toggleNode p S)) v = jsonTree S v"
proof -
  have flip: "(q \<in> toggleNode p S) = (if q = p then q \<notin> S else q \<in> S)" for q
    by (simp add: toggleNode_def Let_def)
  have twice: "toggleNode p (toggleNode p S) = S"
    by (auto simp: toggleNode_def Let_def)
  from flip twice show ?thesis
    by simp
qed

theorem toggleNode_flips_one_witness:
  "js ''root.b'' \<notin> toggleNode (js ''root.b'') {js ''root'', js ''root.b'', js ''root.b.d''}
   \<and> js ''root.b.d'' \<in> toggleNode (js ''root.b'') {js ''root'', js ''root.b'', js ''root.b.d''}
   \<and> toggleNode (js ''root.b'')
         (toggleNode (js ''root.b'') {js ''root'', js ''root.b'', js ''root.b.d''})
       = {js ''root'', js ''root.b'', js ''root.b.d''}"
  using toggleNode_flips_one
          [of "js ''root.b''" "{js ''root'', js ''root.b'', js ''root.b.d''}" sample_value]
  by (simp add: js_def)

end
